theory Spec2Isabelle
  imports Main "HOL-Library.Word"
begin

unbundle bit_operations_syntax

section \<open>Errors\<close>

text \<open>
  Go errors are values. The client builds them in three ways: it passes on the error of a
  library call, it wraps one with \<^verbatim>\<open>errors.Wrap(err, msg)\<close>, or it makes a new one
  with \<^verbatim>\<open>fmt.Errorf\<close>. \<^verbatim>\<open>strconv.ParseInt\<close> returns a \<^verbatim>\<open>*NumError\<close>
  whose cause is \<^verbatim>\<open>ErrSyntax\<close> or \<^verbatim>\<open>ErrRange\<close>.
\<close>

datatype numErr = ErrSyntax | ErrRange

datatype error =
    LibError string
  | Wrap error string
  | Errorf string
  | NumError string string numErr

section \<open>The platform client\<close>

subsection \<open>Mergeability\<close>

text \<open>
  Fields of the go-github structs are pointers; the \<^verbatim>\<open>Get...\<close> accessors return the
  zero value for a nil field. Only the fields the client reads are kept.
\<close>

record PullRequest =
  MergeableState :: "string option"

definition GetMergeableState :: "PullRequest \<Rightarrow> string" where
  "GetMergeableState p = (case MergeableState p of None \<Rightarrow> [] | Some s \<Rightarrow> s)"

text \<open>
  \<^verbatim>\<open>GetPullRequest\<close> hands on what \<^verbatim>\<open>PullRequests.Get\<close> returned, which is the
  argument here: the error, or the pull request.
\<close>

definition GetPullRequest :: "error + PullRequest \<Rightarrow> error + PullRequest" where
  "GetPullRequest pulls_get = pulls_get"

definition PullIsMergeable :: "error + PullRequest \<Rightarrow> bool \<times> error option" where
  "PullIsMergeable pulls_get =
     (case GetPullRequest pulls_get of
        Inl err \<Rightarrow> (False, Some (Wrap err ''getting pull request''))
      | Inr githubPR \<Rightarrow>
          (let state = GetMergeableState githubPR in
           if state \<noteq> ''clean'' \<and> state \<noteq> ''unstable'' \<and> state \<noteq> ''has_hooks''
           then (False, None)
           else (True, None)))"

subsection \<open>Merging\<close>

record Repository =
  AllowMergeCommit :: "bool option"
  AllowRebaseMerge :: "bool option"
  AllowSquashMerge :: "bool option"

definition GetAllowMergeCommit :: "Repository \<Rightarrow> bool" where
  "GetAllowMergeCommit r = (case AllowMergeCommit r of None \<Rightarrow> False | Some b \<Rightarrow> b)"

definition GetAllowRebaseMerge :: "Repository \<Rightarrow> bool" where
  "GetAllowRebaseMerge r = (case AllowRebaseMerge r of None \<Rightarrow> False | Some b \<Rightarrow> b)"

definition GetAllowSquashMerge :: "Repository \<Rightarrow> bool" where
  "GetAllowSquashMerge r = (case AllowSquashMerge r of None \<Rightarrow> False | Some b \<Rightarrow> b)"

record PullRequestMergeResult =
  Merged :: "bool option"
  Message :: "string option"

definition GetMerged :: "PullRequestMergeResult \<Rightarrow> bool" where
  "GetMerged m = (case Merged m of None \<Rightarrow> False | Some b \<Rightarrow> b)"

definition GetMessage :: "PullRequestMergeResult \<Rightarrow> string" where
  "GetMessage m = (case Message m of None \<Rightarrow> [] | Some s \<Rightarrow> s)"

definition defaultMergeMethod :: string where
  "defaultMergeMethod = ''merge''"

definition rebaseMergeMethod :: string where
  "rebaseMergeMethod = ''rebase''"

definition squashMergeMethod :: string where
  "squashMergeMethod = ''squash''"

text \<open>
  The first half of \<^verbatim>\<open>MergePull\<close>: the method starts as the default and is replaced
  only when merge commits are not allowed.
\<close>

definition mergeMethod :: "Repository \<Rightarrow> string" where
  "mergeMethod repo =
     (let method = defaultMergeMethod in
      if \<not> GetAllowMergeCommit repo then
        (if GetAllowRebaseMerge repo then rebaseMergeMethod
         else if GetAllowSquashMerge repo then squashMergeMethod
         else method)
      else method)"

text \<open>
  \<^verbatim>\<open>MergePull\<close> makes two calls: \<^verbatim>\<open>Repositories.Get\<close>, whose result is
  \<open>repos_get\<close>, and \<^verbatim>\<open>PullRequests.Merge\<close>, a function of the commit message and
  of the merge method in the options. The commit message is a constant of the package
  \<^verbatim>\<open>common\<close> and is a parameter. The result is the returned error, \<open>None\<close> for nil.
\<close>

definition MergePull ::
  "string \<Rightarrow> (error + Repository) \<Rightarrow> (string \<Rightarrow> string \<Rightarrow> error + PullRequestMergeResult)
     \<Rightarrow> error option" where
  "MergePull AutomergeCommitMsg repos_get pulls_merge =
     (case repos_get of
        Inl err \<Rightarrow> Some (Wrap err ''fetching repo info'')
      | Inr repo \<Rightarrow>
          (case pulls_merge AutomergeCommitMsg (mergeMethod repo) of
             Inl err \<Rightarrow> Some (Wrap err ''merging pull request'')
           | Inr mergeResult \<Rightarrow>
               if \<not> GetMerged mergeResult
               then Some (Errorf (''could not merge pull request: '' @ GetMessage mergeResult))
               else None))"

subsection \<open>Paged listings\<close>

text \<open>
  A list call takes the options and returns an error, or the items of one page with the
  response, of which the client reads the marker \<^verbatim>\<open>NextPage\<close> (0 when there is no
  further page). Items are pointers and may be nil; the accessors of go-github accept a
  nil receiver and return the zero value.
\<close>

record ListOptions =
  Page :: int
  PerPage :: int

record Response =
  NextPage :: int

type_synonym 'a listCall = "ListOptions \<Rightarrow> error + ('a option list \<times> Response)"

record CommitFile =
  Filename :: "string option"
  Status :: "string option"
  PreviousFilename :: "string option"

definition GetFilename :: "CommitFile option \<Rightarrow> string" where
  "GetFilename f =
     (case f of None \<Rightarrow> []
      | Some c \<Rightarrow> (case Filename c of None \<Rightarrow> [] | Some s \<Rightarrow> s))"

definition GetStatus :: "CommitFile option \<Rightarrow> string" where
  "GetStatus f =
     (case f of None \<Rightarrow> []
      | Some c \<Rightarrow> (case Status c of None \<Rightarrow> [] | Some s \<Rightarrow> s))"

definition GetPreviousFilename :: "CommitFile option \<Rightarrow> string" where
  "GetPreviousFilename f =
     (case f of None \<Rightarrow> []
      | Some c \<Rightarrow> (case PreviousFilename c of None \<Rightarrow> [] | Some s \<Rightarrow> s))"

text \<open>The options of one iteration: page size 300, and the page only when it is not 0.\<close>

definition listOpts :: "int \<Rightarrow> ListOptions" where
  "listOpts nextPage =
     (let opts = \<lparr>Page = 0, PerPage = 300\<rparr> in
      if nextPage \<noteq> 0 then opts\<lparr>Page := nextPage\<rparr> else opts)"

text \<open>The inner loop of \<^verbatim>\<open>GetModifiedFiles\<close> over the files of one page.\<close>

fun appendPageFiles :: "string list \<Rightarrow> CommitFile option list \<Rightarrow> string list" where
  "appendPageFiles files [] = files"
| "appendPageFiles files (f # pageFiles) =
     (let files = files @ [GetFilename f];
          files = (if GetStatus f = ''renamed''
                   then files @ [GetPreviousFilename f] else files)
      in appendPageFiles files pageFiles)"

text \<open>
  The outer loop has no bound of its own: it ends when a fetch fails or the platform
  reports no next page. \<open>None\<close> is the loop that never ends. The result is the pair the
  Go function returns, the files and the error.
\<close>

partial_function (option) GetModifiedFiles_loop ::
  "CommitFile listCall \<Rightarrow> string list \<Rightarrow> int \<Rightarrow> (string list \<times> error option) option" where
  "GetModifiedFiles_loop ListFiles files nextPage =
     (case ListFiles (listOpts nextPage) of
        Inl err \<Rightarrow> Some (files, Some err)
      | Inr (pageFiles, resp) \<Rightarrow>
          (if NextPage resp = 0
           then Some (appendPageFiles files pageFiles, None)
           else GetModifiedFiles_loop ListFiles (appendPageFiles files pageFiles)
                  (NextPage resp)))"

definition GetModifiedFiles ::
  "CommitFile listCall \<Rightarrow> (string list \<times> error option) option" where
  "GetModifiedFiles ListFiles = GetModifiedFiles_loop ListFiles [] 0"

record PullRequestReview =
  State :: "string option"

definition GetState :: "PullRequestReview option \<Rightarrow> string" where
  "GetState review =
     (case review of None \<Rightarrow> []
      | Some r \<Rightarrow> (case State r of None \<Rightarrow> [] | Some s \<Rightarrow> s))"

text \<open>
  The inner loop of \<^verbatim>\<open>PullIsApproved\<close>: whether it returns from inside the page.
\<close>

fun approvedOnPage :: "PullRequestReview option list \<Rightarrow> bool" where
  "approvedOnPage [] = False"
| "approvedOnPage (review # pageReviews) =
     (if review \<noteq> None \<and> GetState review = ''APPROVED'' then True
      else approvedOnPage pageReviews)"

text \<open>
  To say which pages were fetched, the loop carries the options of every
  \<^verbatim>\<open>ListReviews\<close> call it made, in order, and returns them beside the result.
\<close>

partial_function (option) PullIsApproved_loop ::
  "PullRequestReview listCall \<Rightarrow> ListOptions list \<Rightarrow> int
     \<Rightarrow> ((bool \<times> error option) \<times> ListOptions list) option" where
  "PullIsApproved_loop ListReviews calls nextPage =
     (case ListReviews (listOpts nextPage) of
        Inl err \<Rightarrow>
          Some ((False, Some (Wrap err ''getting reviews'')), calls @ [listOpts nextPage])
      | Inr (pageReviews, resp) \<Rightarrow>
          (if approvedOnPage pageReviews
           then Some ((True, None), calls @ [listOpts nextPage])
           else if NextPage resp = 0
           then Some ((False, None), calls @ [listOpts nextPage])
           else PullIsApproved_loop ListReviews (calls @ [listOpts nextPage])
                  (NextPage resp)))"

definition PullIsApproved ::
  "PullRequestReview listCall \<Rightarrow> ((bool \<times> error option) \<times> ListOptions list) option" where
  "PullIsApproved ListReviews = PullIsApproved_loop ListReviews [] 0"

text \<open>
  What a platform does along a walk, for stating properties: \<open>delivers call p visited q\<close>
  holds when, from the page marker \<open>p\<close>, the successive fetches succeed and return the
  pages \<open>visited\<close> (each with the marker it was asked for), every one of them announces a
  next page, and the marker after the last is \<open>q\<close>.
\<close>

fun delivers :: "'a listCall \<Rightarrow> int \<Rightarrow> (int \<times> 'a option list) list \<Rightarrow> int \<Rightarrow> bool" where
  "delivers call p [] q = (p = q)"
| "delivers call p ((c, items) # visited) q =
     (c = p \<and>
      (case call \<lparr>Page = p, PerPage = 300\<rparr> of
         Inl err \<Rightarrow> False
       | Inr (pageItems, resp) \<Rightarrow>
           pageItems = items \<and> NextPage resp \<noteq> 0 \<and> delivers call (NextPage resp) visited q))"

text \<open>The names one changed file contributes: its name, and its old name after a rename.\<close>

definition fileNames :: "CommitFile option \<Rightarrow> string list" where
  "fileNames f =
     (if GetStatus f = ''renamed'' then [GetFilename f, GetPreviousFilename f]
      else [GetFilename f])"

section \<open>Credentials of a GitHub App\<close>

subsection \<open>Parsing the installation id\<close>

text \<open>
  \<^verbatim>\<open>strconv.ParseInt(s, 10, 64)\<close> of the Go library, for the base and size the
  resolver passes. It returns a value and an error; after a range error the value is the
  nearest bound. \<^verbatim>\<open>uint64\<close> arithmetic wraps, as the word type does.
\<close>

type_synonym int64 = "64 word"

type_synonym uint64 = "64 word"

definition syntaxError :: "string \<Rightarrow> string \<Rightarrow> error" where
  "syntaxError fn str = NumError fn str ErrSyntax"

definition rangeError :: "string \<Rightarrow> string \<Rightarrow> error" where
  "rangeError fn str = NumError fn str ErrRange"

definition byte :: "char \<Rightarrow> nat" where
  "byte c = of_char c"

definition lower :: "char \<Rightarrow> nat" where
  "lower c = byte c OR 32"

text \<open>The value of a digit or letter, before it is compared with the base.\<close>

definition digitValue :: "char \<Rightarrow> nat option" where
  "digitValue c =
     (if 48 \<le> byte c \<and> byte c \<le> 57 then Some (byte c - 48)
      else if 97 \<le> lower c \<and> lower c \<le> 122 then Some (lower c - 97 + 10)
      else None)"

definition maxVal :: uint64 where
  "maxVal = 0xFFFFFFFFFFFFFFFF"

definition cutoff10 :: uint64 where
  "cutoff10 = 0xFFFFFFFFFFFFFFFF div 10 + 1"

fun ParseUint_digits :: "string \<Rightarrow> string \<Rightarrow> uint64 \<Rightarrow> uint64 \<times> error option" where
  "ParseUint_digits s0 [] n = (n, None)"
| "ParseUint_digits s0 (c # cs) n =
     (case digitValue c of
        None \<Rightarrow> (0, Some (syntaxError ''ParseUint'' s0))
      | Some d \<Rightarrow>
          if d \<ge> 10 then (0, Some (syntaxError ''ParseUint'' s0))
          else if n \<ge> cutoff10 then (maxVal, Some (rangeError ''ParseUint'' s0))
          else
            (let n10 = n * 10; n1 = n10 + of_nat d in
             if n1 < n10 \<or> n1 > maxVal then (maxVal, Some (rangeError ''ParseUint'' s0))
             else ParseUint_digits s0 cs n1))"

definition ParseUint :: "string \<Rightarrow> uint64 \<times> error option" where
  "ParseUint s =
     (if s = [] then (0, Some (syntaxError ''ParseUint'' s))
      else ParseUint_digits s s 0)"

definition isRange :: "error \<Rightarrow> bool" where
  "isRange err = (case err of NumError fn num e \<Rightarrow> e = ErrRange | _ \<Rightarrow> False)"

text \<open>The assignments \<^verbatim>\<open>err.Func = fn; err.Num = s0\<close> on a \<^verbatim>\<open>*NumError\<close>.\<close>

definition setFuncNum :: "error \<Rightarrow> string \<Rightarrow> string \<Rightarrow> error" where
  "setFuncNum err fn s0 = (case err of NumError f num e \<Rightarrow> NumError fn s0 e | _ \<Rightarrow> err)"

text \<open>The range check of \<^verbatim>\<open>ParseInt\<close> on the unsigned value, with the cutoff \<open>2^63\<close>.\<close>

definition ParseInt_signed :: "string \<Rightarrow> bool \<Rightarrow> uint64 \<Rightarrow> int64 \<times> error option" where
  "ParseInt_signed s0 neg un =
     (let cutoff = (push_bit 63 1 :: uint64) in
      if \<not> neg \<and> un \<ge> cutoff then (cutoff - 1, Some (rangeError ''ParseInt'' s0))
      else if neg \<and> un > cutoff then (- cutoff, Some (rangeError ''ParseInt'' s0))
      else (if neg then - un else un, None))"

definition ParseInt :: "string \<Rightarrow> int64 \<times> error option" where
  "ParseInt s0 =
     (if s0 = [] then (0, Some (syntaxError ''ParseInt'' s0))
      else
        (let (neg, s) =
               (if hd s0 = CHR ''+'' then (False, tl s0)
                else if hd s0 = CHR ''-'' then (True, tl s0)
                else (False, s0))
         in case ParseUint s of
              (un, Some err) \<Rightarrow>
                if \<not> isRange err then (0, Some (setFuncNum err ''ParseInt'' s0))
                else ParseInt_signed s0 neg un
            | (un, None) \<Rightarrow> ParseInt_signed s0 neg un))"

text \<open>
  What it is for a text to be an integer in base 10, for stating what the resolver does:
  an optional sign and then one or more digits. \<open>integerValue\<close> is the number it denotes.
\<close>

definition isDigit :: "char \<Rightarrow> bool" where
  "isDigit c = (48 \<le> byte c \<and> byte c \<le> 57)"

definition unsignedPart :: "string \<Rightarrow> string" where
  "unsignedPart s =
     (case s of [] \<Rightarrow> []
      | c # cs \<Rightarrow> if c = CHR ''+'' \<or> c = CHR ''-'' then cs else s)"

definition isDecimalInteger :: "string \<Rightarrow> bool" where
  "isDecimalInteger s = (unsignedPart s \<noteq> [] \<and> list_all isDigit (unsignedPart s))"

definition decimalValue :: "nat \<Rightarrow> string \<Rightarrow> nat" where
  "decimalValue acc ds = foldl (\<lambda>a c. a * 10 + (byte c - 48)) acc ds"

definition integerValue :: "string \<Rightarrow> int" where
  "integerValue s =
     (if s \<noteq> [] \<and> hd s = CHR ''-'' then - int (decimalValue 0 (unsignedPart s))
      else int (decimalValue 0 (unsignedPart s)))"

subsection \<open>The installation resolver and the transport\<close>

text \<open>
  The calls into \<^verbatim>\<open>ghinstallation\<close>, \<^verbatim>\<open>net/http\<close> and go-github are parameters:
  each returns its error or its value. \<open>Do\<close> stands for \<^verbatim>\<open>client.Do(ctx, req, app)\<close>
  with the client built on the application transport; on success it gives the field
  \<^verbatim>\<open>ID\<close> decoded from the body (empty when the body has none).
\<close>

record request =
  Method :: string
  URL :: string

record GithubAppCredentials =
  AppID :: int64
  KeyPath :: string

definition getInstallationID ::
  "(int64 \<Rightarrow> string \<Rightarrow> error + 't) \<Rightarrow> (string \<Rightarrow> string \<Rightarrow> error + request)
     \<Rightarrow> ('t \<Rightarrow> request \<Rightarrow> error + string) \<Rightarrow> GithubAppCredentials
     \<Rightarrow> int64 \<times> error option" where
  "getInstallationID NewAppsTransportKeyFromFile NewRequest Do c =
     (case NewAppsTransportKeyFromFile (AppID c) (KeyPath c) of
        Inl err \<Rightarrow> (0, Some err)
      | Inr t \<Rightarrow>
          (case NewRequest ''GET'' ''/app'' of
             Inl err \<Rightarrow> (0, Some err)
           | Inr req \<Rightarrow>
               (case Do t req of
                  Inl err \<Rightarrow> (0, Some err)
                | Inr ID \<Rightarrow> ParseInt ID)))"

text \<open>
  \<^verbatim>\<open>Client\<close> of \<^verbatim>\<open>github_credentials.go\<close> returns the client or the error.
\<close>

definition Client ::
  "(int64 \<Rightarrow> string \<Rightarrow> error + 't) \<Rightarrow> (string \<Rightarrow> string \<Rightarrow> error + request)
     \<Rightarrow> ('t \<Rightarrow> request \<Rightarrow> error + string) \<Rightarrow> (int64 \<Rightarrow> int64 \<Rightarrow> string \<Rightarrow> error + 'c)
     \<Rightarrow> GithubAppCredentials \<Rightarrow> error + 'c" where
  "Client NewAppsTransportKeyFromFile NewRequest Do NewKeyFromFile c =
     (case getInstallationID NewAppsTransportKeyFromFile NewRequest Do c of
        (installationID, Some err) \<Rightarrow> Inl err
      | (installationID, None) \<Rightarrow>
          (case NewKeyFromFile (AppID c) installationID (KeyPath c) of
             Inl err \<Rightarrow> Inl err
           | Inr itr \<Rightarrow> Inr itr))"

text \<open>
  The same two methods as the file of the platform client has them (\<^verbatim>\<open>part_000\<close>),
  where the fields are \<^verbatim>\<open>App\<close> and \<^verbatim>\<open>Key\<close>, the resolver uses named results and
  \<^verbatim>\<open>Client\<close> returns a client only: on an error it panics.
\<close>

record GithubAppCredentials_part_000 =
  App :: int64
  Key :: string

datatype 'a outcome = Returns 'a | Panics error

definition getInstallationID_part_000 ::
  "(int64 \<Rightarrow> string \<Rightarrow> error + 't) \<Rightarrow> (string \<Rightarrow> string \<Rightarrow> error + request)
     \<Rightarrow> ('t \<Rightarrow> request \<Rightarrow> error + string) \<Rightarrow> GithubAppCredentials_part_000
     \<Rightarrow> int64 \<times> error option" where
  "getInstallationID_part_000 NewAppsTransportKeyFromFile NewRequest Do c =
     (let id = 0 in
      case NewAppsTransportKeyFromFile (App c) (Key c) of
        Inl err \<Rightarrow> (id, Some err)
      | Inr t \<Rightarrow>
          (case NewRequest ''GET'' ''/app'' of
             Inl err \<Rightarrow> (id, Some err)
           | Inr req \<Rightarrow>
               (case Do t req of
                  Inl err \<Rightarrow> (id, Some err)
                | Inr ID \<Rightarrow> ParseInt ID)))"

definition Client_part_000 ::
  "(int64 \<Rightarrow> string \<Rightarrow> error + 't) \<Rightarrow> (string \<Rightarrow> string \<Rightarrow> error + request)
     \<Rightarrow> ('t \<Rightarrow> request \<Rightarrow> error + string) \<Rightarrow> (int64 \<Rightarrow> int64 \<Rightarrow> string \<Rightarrow> error + 'c)
     \<Rightarrow> GithubAppCredentials_part_000 \<Rightarrow> 'c outcome" where
  "Client_part_000 NewAppsTransportKeyFromFile NewRequest Do NewKeyFromFile c =
     (case getInstallationID_part_000 NewAppsTransportKeyFromFile NewRequest Do c of
        (installationID, Some err) \<Rightarrow> Panics err
      | (installationID, None) \<Rightarrow>
          (case NewKeyFromFile (App c) installationID (Key c) of
             Inl err \<Rightarrow> Panics err
           | Inr itr \<Rightarrow> Returns itr))"

section \<open>Comments\<close>

definition maxCommentLength :: nat where
  "maxCommentLength = 65536"

definition CreateComment_sepEnd :: string where
  "CreateComment_sepEnd = ''\<newline>```\<newline></details>'' @
     ''\<newline><br>\<newline>\<newline>**Warning**: Output length greater than max comment size. Continued in next comment.''"

definition CreateComment_sepStart :: string where
  "CreateComment_sepStart =
     ''Continued from previous comment.\<newline><details><summary>Show Output</summary>\<newline>\<newline>'' @
     ''```diff\<newline>''"

text \<open>
  The comment chunker \<^verbatim>\<open>common.SplitComment\<close> is called by \<open>CreateComment\<close>, and its
  file is not among the sources. It is modelled from section 4.5 of the spec in four steps.
\<close>

text \<open>
  Modelled from the spec: where \<^verbatim>\<open>common.SplitComment\<close> cuts. The spec says the text is
  split at line boundaries, deterministically. With \<open>room\<close> characters for the text of a
  segment, a piece ends after the last newline among the next \<open>room\<close> characters, and
  after \<open>room\<close> characters when there is no newline among them.
\<close>

definition cutPoint :: "nat \<Rightarrow> string \<Rightarrow> nat" where
  "cutPoint room text =
     (let k = room - length (takeWhile (\<lambda>c. c \<noteq> CHR 0x0A) (rev (take room text)))
      in if k = 0 then room else k)"

text \<open>
  Modelled from the spec: the pieces \<^verbatim>\<open>common.SplitComment\<close> cuts the text into, none
  longer than \<open>room\<close>. The spec is silent on a maximum that leaves no room for text; the
  model then keeps the rest in one piece.
\<close>

function splitPieces :: "nat \<Rightarrow> string \<Rightarrow> string list" where
  "splitPieces room text =
     (if room = 0 \<or> length text \<le> room then [text]
      else take (cutPoint room text) text # splitPieces room (drop (cutPoint room text) text))"
  by pat_completeness auto
termination
  by (relation "measure (\<lambda>(room, text). length text)")
     (auto simp: cutPoint_def Let_def)

declare splitPieces.simps [simp del]

text \<open>
  Modelled from the spec: the wrapping \<^verbatim>\<open>common.SplitComment\<close> puts around the pieces,
  a trailing continuation marker for all but the last segment and a leading one for all
  but the first. \<open>wrapRest\<close> wraps the segments after the first.
\<close>

fun wrapRest :: "string \<Rightarrow> string \<Rightarrow> string list \<Rightarrow> string list" where
  "wrapRest sepEnd sepStart [] = []"
| "wrapRest sepEnd sepStart [p] = [sepStart @ p]"
| "wrapRest sepEnd sepStart (p # q # ps) =
     (sepStart @ p @ sepEnd) # wrapRest sepEnd sepStart (q # ps)"

fun wrapPieces :: "string \<Rightarrow> string \<Rightarrow> string list \<Rightarrow> string list" where
  "wrapPieces sepEnd sepStart [] = []"
| "wrapPieces sepEnd sepStart [p] = [p]"
| "wrapPieces sepEnd sepStart (p # q # ps) =
     (p @ sepEnd) # wrapRest sepEnd sepStart (q # ps)"

text \<open>
  Modelled from the spec: \<^verbatim>\<open>common.SplitComment\<close> itself. Text that fits within the
  maximum is returned as a single segment unmodified; otherwise it is split such that each
  segment, including its markers, does not exceed the maximum: the text of a segment gets
  what the two markers do not take of the maximum.
\<close>

definition SplitComment :: "string \<Rightarrow> nat \<Rightarrow> string \<Rightarrow> string \<Rightarrow> string list" where
  "SplitComment comment maxSize sepEnd sepStart =
     (if length comment \<le> maxSize then [comment]
      else wrapPieces sepEnd sepStart
             (splitPieces (maxSize - length sepEnd - length sepStart) comment))"

text \<open>
  \<^verbatim>\<open>CreateComment\<close> posts the segments in order and stops at the first error. The call
  \<^verbatim>\<open>Issues.CreateComment\<close> is a function of the body; the bodies posted are returned
  beside the error.
\<close>

fun postComments :: "(string \<Rightarrow> error option) \<Rightarrow> string list \<Rightarrow> string list \<times> error option" where
  "postComments issues_create [] = ([], None)"
| "postComments issues_create (c # comments) =
     (case issues_create c of
        Some err \<Rightarrow> ([c], Some err)
      | None \<Rightarrow>
          (case postComments issues_create comments of
             (posted, err) \<Rightarrow> (c # posted, err)))"

definition CreateComment :: "(string \<Rightarrow> error option) \<Rightarrow> string \<Rightarrow> string list \<times> error option" where
  "CreateComment issues_create comment =
     (let sepEnd = CreateComment_sepEnd;
          sepStart = CreateComment_sepStart;
          comments = SplitComment comment maxCommentLength sepEnd sepStart
      in postComments issues_create comments)"

text \<open>
  Taking the continuation wrapping off again, by position: the leading marker off every
  segment but the first, the trailing marker off every segment but the last.
\<close>

fun stripRest :: "string \<Rightarrow> string \<Rightarrow> string list \<Rightarrow> string list" where
  "stripRest sepEnd sepStart [] = []"
| "stripRest sepEnd sepStart [s] = [drop (length sepStart) s]"
| "stripRest sepEnd sepStart (s # t # ss) =
     take (length s - length sepStart - length sepEnd) (drop (length sepStart) s)
       # stripRest sepEnd sepStart (t # ss)"

fun stripWrapping :: "string \<Rightarrow> string \<Rightarrow> string list \<Rightarrow> string list" where
  "stripWrapping sepEnd sepStart [] = []"
| "stripWrapping sepEnd sepStart [s] = [s]"
| "stripWrapping sepEnd sepStart (s # t # ss) =
     take (length s - length sepEnd) s # stripRest sepEnd sepStart (t # ss)"

section \<open>The GitHub App controller\<close>

text \<open>
  \<^verbatim>\<open>ExchangeCode\<close> acts on the response writer, the logger and the network. The model
  returns the calls it makes, in order. \<^verbatim>\<open>fmt.Sprintf\<close>, \<^verbatim>\<open>http.NewRequest\<close>,
  \<^verbatim>\<open>client.Do\<close> (which gives the response and the decoded exchange) and
  \<^verbatim>\<open>json.Marshal\<close> are parameters.
\<close>

datatype LogLevel = logging_Debug | logging_Info | logging_Warn | logging_Error

datatype fmtArg = ArgError error | ArgBytes string | ArgString string | ArgInt int64

datatype event =
    LoggerLog LogLevel string
  | LoggerDebug string "fmtArg list"
  | WriteHeader int
  | Fprintln string
  | HttpNewRequest string string
  | ClientDo request

record GithubAppController =
  AtlantisURL :: string
  GithubSetupComplete :: bool
  GithubHostname :: string
  GithubOrg :: string

record httpResponse =
  StatusCode :: int

text \<open>The anonymous struct the exchange is decoded into, and the answer to the user.\<close>

record codeExchange =
  app_ID :: int64
  app_Key :: string
  app_WebhookSecret :: string
  app_Name :: string

record githubAppResponse =
  resp_COMMENT :: string
  resp_ID :: int64
  resp_Key :: string
  resp_WebhookSecret :: string

definition StatusOK :: int where
  "StatusOK = 200"

definition StatusBadRequest :: int where
  "StatusBadRequest = 400"

definition StatusBadGateway :: int where
  "StatusBadGateway = 502"

definition respond ::
  "(string \<Rightarrow> fmtArg list \<Rightarrow> string) \<Rightarrow> LogLevel \<Rightarrow> int \<Rightarrow> string \<Rightarrow> fmtArg list
     \<Rightarrow> event list" where
  "respond Sprintf lvl code format args =
     (let response = Sprintf format args
      in [LoggerLog lvl response, WriteHeader code, Fprintln response])"

text \<open>
  \<open>query_code\<close> is the query parameter \<^verbatim>\<open>code\<close> of the request, \<open>None\<close> when it is
  absent; \<^verbatim>\<open>Query().Get\<close> then gives the empty string. The buffer read from the body
  of a failed exchange has length 0, so it stays empty.
\<close>

definition ExchangeCode ::
  "(string \<Rightarrow> fmtArg list \<Rightarrow> string) \<Rightarrow> (string \<Rightarrow> string \<Rightarrow> error + request)
     \<Rightarrow> (request \<Rightarrow> error + (httpResponse \<times> codeExchange))
     \<Rightarrow> (githubAppResponse \<Rightarrow> string)
     \<Rightarrow> GithubAppController \<Rightarrow> string option \<Rightarrow> event list" where
  "ExchangeCode Sprintf NewRequest Do Marshal g query_code =
     (if GithubSetupComplete g
      then respond Sprintf logging_Error StatusBadRequest
             ''Atlantis already has GitHub credentials'' []
      else
        (let code = (case query_code of None \<Rightarrow> [] | Some v \<Rightarrow> v);
             w = (if code = []
                  then respond Sprintf logging_Debug StatusOK
                         ''Ignoring callback, missing code query parameter'' []
                  else []);
             w = w @ [LoggerDebug ''Exchanging GitHub app code for app credentials'' []];
             url = ''/app-manifests/'' @ code @ ''/conversions'';
             w = w @ [HttpNewRequest ''POST'' url]
         in case NewRequest ''POST'' url of
              Inl err \<Rightarrow>
                w @ respond Sprintf logging_Error StatusBadGateway
                      ''Error creating http request to exchange token: %s'' [ArgError err]
            | Inr req \<Rightarrow>
                (case Do req of
                   Inl err \<Rightarrow>
                     w @ [ClientDo req] @
                     respond Sprintf logging_Error StatusBadGateway
                       ''Error exchanging code for token: %s'' [ArgError err]
                 | Inr (res, app) \<Rightarrow>
                     if StatusCode res \<ge> 400
                     then w @ [ClientDo req] @
                          respond Sprintf logging_Error (StatusCode res)
                            ''Error exchanging code for token: %q'' [ArgBytes []]
                     else
                       (let response = Marshal
                              \<lparr>resp_COMMENT =
                                 ''Update these values in your Atlantis config and restart the server'',
                               resp_ID = app_ID app,
                               resp_Key = app_Key app,
                               resp_WebhookSecret = app_WebhookSecret app\<rparr>
                        in w @ [ClientDo req,
                                LoggerDebug ''Found credentials for GitHub app %q with id %d''
                                  [ArgString (app_Name app), ArgInt (app_ID app)]] @
                           respond Sprintf logging_Info StatusOK response []))))"

text \<open>A response is written by every \<^verbatim>\<open>WriteHeader\<close>.\<close>

fun isWriteHeader :: "event \<Rightarrow> bool" where
  "isWriteHeader (WriteHeader code) = True"
| "isWriteHeader ev = False"

section \<open>Example platforms\<close>

text \<open>
  Small platforms on which the properties below are run. The changed files come on two
  pages, 0 and 2; the second fetch fails when \<open>failing\<close> is set.
\<close>

definition example_ListFiles :: "bool \<Rightarrow> CommitFile listCall" where
  "example_ListFiles failing opts =
     (if Page opts = 0
      then Inr ([Some \<lparr>Filename = Some ''b.tf'', Status = Some ''renamed'',
                       PreviousFilename = Some ''a.tf''\<rparr>,
                 Some \<lparr>Filename = Some ''a.tf'', Status = Some ''added'',
                       PreviousFilename = None\<rparr>], \<lparr>NextPage = 2\<rparr>)
      else if Page opts = 2 \<and> \<not> failing
      then Inr ([Some \<lparr>Filename = Some ''c.tf'', Status = Some ''modified'',
                       PreviousFilename = None\<rparr>], \<lparr>NextPage = 0\<rparr>)
      else Inl (LibError ''502 Bad Gateway''))"

text \<open>
  Reviews on pages 0 and 2; the second page holds one review in the state \<open>st\<close> and
  announces the page \<open>next\<close>; any further fetch fails.
\<close>

definition example_ListReviews :: "string \<Rightarrow> int \<Rightarrow> PullRequestReview listCall" where
  "example_ListReviews st next opts =
     (if Page opts = 0
      then Inr ([Some \<lparr>State = Some ''COMMENTED''\<rparr>, None], \<lparr>NextPage = 2\<rparr>)
      else if Page opts = 2
      then Inr ([Some \<lparr>State = Some st\<rparr>], \<lparr>NextPage = next\<rparr>)
      else Inl (LibError ''502 Bad Gateway''))"

section \<open>Properties of the platform client\<close>

subsection \<open>Merge method and merge outcome\<close>

text \<open>
  C3. For every combination of the allow-flags, the method chosen before merging is
  \<open>merge\<close> when merge commits are allowed, whatever the other flags; otherwise \<open>rebase\<close>
  when rebasing is allowed; otherwise \<open>squash\<close> when squashing is allowed; otherwise
  \<open>merge\<close> again. The merge call is made with that method: the outcome of \<open>MergePull\<close>
  depends on the call only through its answer for it.
\<close>

theorem mergeMethod_selection:
  "mergeMethod repo =
     (if GetAllowMergeCommit repo then ''merge''
      else if GetAllowRebaseMerge repo then ''rebase''
      else if GetAllowSquashMerge repo then ''squash''
      else ''merge'')
   \<and> MergePull msg (Inr repo) pulls_merge =
       MergePull msg (Inr repo)
         (\<lambda>m method. pulls_merge msg
            (if GetAllowMergeCommit repo then ''merge''
             else if GetAllowRebaseMerge repo then ''rebase''
             else if GetAllowSquashMerge repo then ''squash''
             else ''merge''))"
  by (simp add: mergeMethod_def MergePull_def defaultMergeMethod_def rebaseMergeMethod_def
      squashMergeMethod_def)

theorem mergeMethod_selection_witness:
  "mergeMethod \<lparr>AllowMergeCommit = Some True, AllowRebaseMerge = Some True,
                 AllowSquashMerge = Some True\<rparr> = ''merge''
   \<and> mergeMethod \<lparr>AllowMergeCommit = Some False, AllowRebaseMerge = Some True,
                   AllowSquashMerge = Some True\<rparr> = ''rebase''
   \<and> mergeMethod \<lparr>AllowMergeCommit = Some False, AllowRebaseMerge = Some False,
                   AllowSquashMerge = Some True\<rparr> = ''squash''
   \<and> mergeMethod \<lparr>AllowMergeCommit = Some False, AllowRebaseMerge = Some False,
                   AllowSquashMerge = Some False\<rparr> = ''merge''
   \<and> mergeMethod \<lparr>AllowMergeCommit = None, AllowRebaseMerge = None,
                   AllowSquashMerge = None\<rparr> = ''merge''"
  using mergeMethod_selection [of "\<lparr>AllowMergeCommit = Some True, AllowRebaseMerge = Some True,
                 AllowSquashMerge = Some True\<rparr>"]
    mergeMethod_selection [of "\<lparr>AllowMergeCommit = Some False, AllowRebaseMerge = Some True,
                 AllowSquashMerge = Some True\<rparr>"]
    mergeMethod_selection [of "\<lparr>AllowMergeCommit = Some False, AllowRebaseMerge = Some False,
                 AllowSquashMerge = Some True\<rparr>"]
    mergeMethod_selection [of "\<lparr>AllowMergeCommit = Some False, AllowRebaseMerge = Some False,
                 AllowSquashMerge = Some False\<rparr>"]
    mergeMethod_selection [of "\<lparr>AllowMergeCommit = None, AllowRebaseMerge = None,
                 AllowSquashMerge = None\<rparr>"]
  by (simp add: GetAllowMergeCommit_def GetAllowRebaseMerge_def GetAllowSquashMerge_def)

text \<open>
  C8. With the repository fetched: when the merge call fails, \<open>MergePull\<close> returns that
  error wrapped as \<open>merging pull request\<close>; when the call succeeds and the platform
  reports the pull request as not merged, it returns a different error, made by
  \<^verbatim>\<open>fmt.Errorf\<close>, that ends with the message of the platform's answer. It returns no
  error exactly when both calls succeed and the platform reports the pull request merged.
\<close>

theorem MergePull_outcomes:
  "(pulls_merge msg (mergeMethod repo) = Inl err \<longrightarrow>
      MergePull msg (Inr repo) pulls_merge = Some (Wrap err ''merging pull request''))
   \<and> (pulls_merge msg (mergeMethod repo) = Inr mergeResult \<and> \<not> GetMerged mergeResult \<longrightarrow>
      MergePull msg (Inr repo) pulls_merge =
        Some (Errorf (''could not merge pull request: '' @ GetMessage mergeResult)))
   \<and> Wrap err ''merging pull request'' \<noteq>
        Errorf (''could not merge pull request: '' @ GetMessage mergeResult)
   \<and> (MergePull msg repos_get pulls_merge = None \<longleftrightarrow>
        (\<exists>r m. repos_get = Inr r \<and> pulls_merge msg (mergeMethod r) = Inr m \<and> GetMerged m))"
  by (auto simp: MergePull_def split: sum.splits)

theorem MergePull_outcomes_witness:
  "MergePull ''automerge''
     (Inr \<lparr>AllowMergeCommit = Some True, AllowRebaseMerge = None, AllowSquashMerge = None\<rparr>)
     (\<lambda>m method. Inl (LibError ''405 Method Not Allowed''))
     = Some (Wrap (LibError ''405 Method Not Allowed'') ''merging pull request'')
   \<and> MergePull ''automerge''
     (Inr \<lparr>AllowMergeCommit = Some True, AllowRebaseMerge = None, AllowSquashMerge = None\<rparr>)
     (\<lambda>m method. Inr \<lparr>Merged = Some False, Message = Some ''not mergeable''\<rparr>)
     = Some (Errorf ''could not merge pull request: not mergeable'')
   \<and> MergePull ''automerge''
     (Inr \<lparr>AllowMergeCommit = Some True, AllowRebaseMerge = None, AllowSquashMerge = None\<rparr>)
     (\<lambda>m method. Inr \<lparr>Merged = Some True, Message = None\<rparr>)
     = None"
  using MergePull_outcomes [of "\<lambda>m method. Inl (LibError ''405 Method Not Allowed'')" "''automerge''"
      "\<lparr>AllowMergeCommit = Some True, AllowRebaseMerge = None, AllowSquashMerge = None\<rparr>"
      "LibError ''405 Method Not Allowed''"]
    MergePull_outcomes [of "\<lambda>m method. Inr \<lparr>Merged = Some False, Message = Some ''not mergeable''\<rparr>"
      "''automerge''"
      "\<lparr>AllowMergeCommit = Some True, AllowRebaseMerge = None, AllowSquashMerge = None\<rparr>"
      _ "\<lparr>Merged = Some False, Message = Some ''not mergeable''\<rparr>"]
    MergePull_outcomes [of "\<lambda>m method. Inr \<lparr>Merged = Some True, Message = None\<rparr>"
      "''automerge''" _ _ _
      "Inr \<lparr>AllowMergeCommit = Some True, AllowRebaseMerge = None, AllowSquashMerge = None\<rparr>"]
  by (simp add: GetMerged_def GetMessage_def)

subsection \<open>Mergeability\<close>

text \<open>
  C4. When the pull request is fetched, \<open>PullIsMergeable\<close> returns no error, and returns
  true exactly when the mergeable state is \<open>clean\<close>, \<open>unstable\<close> or \<open>has_hooks\<close>.
\<close>

theorem PullIsMergeable_states:
  "PullIsMergeable (Inr githubPR) =
     (GetMergeableState githubPR = ''clean'' \<or> GetMergeableState githubPR = ''unstable''
        \<or> GetMergeableState githubPR = ''has_hooks'', None)"
  by (simp add: PullIsMergeable_def GetPullRequest_def Let_def)

theorem PullIsMergeable_states_witness:
  "PullIsMergeable (Inr \<lparr>MergeableState = Some ''unstable''\<rparr>) = (True, None)
   \<and> PullIsMergeable (Inr \<lparr>MergeableState = Some ''dirty''\<rparr>) = (False, None)
   \<and> PullIsMergeable (Inr \<lparr>MergeableState = None\<rparr>) = (False, None)"
  using PullIsMergeable_states [of "\<lparr>MergeableState = Some ''unstable''\<rparr>"]
    PullIsMergeable_states [of "\<lparr>MergeableState = Some ''dirty''\<rparr>"]
    PullIsMergeable_states [of "\<lparr>MergeableState = None\<rparr>"]
  by (simp add: GetMergeableState_def)

subsection \<open>Paged listings\<close>

lemma listOpts_eq: "listOpts p = \<lparr>Page = p, PerPage = 300\<rparr>"
  by (simp add: listOpts_def Let_def)

lemma appendPageFiles_eq:
  "appendPageFiles files pageFiles = files @ concat (map fileNames pageFiles)"
  by (induction pageFiles arbitrary: files) (simp_all add: fileNames_def Let_def)

text \<open>
  Along pages that are delivered and announce a next page, the loop only collects: it is
  at the marker after them with the names of their files appended.
\<close>

lemma GetModifiedFiles_loop_delivers:
  "delivers ListFiles p visited q \<Longrightarrow>
   GetModifiedFiles_loop ListFiles files p =
     GetModifiedFiles_loop ListFiles
       (files @ concat (map fileNames (concat (map snd visited)))) q"
proof (induction visited arbitrary: p files)
  case Nil
  then show ?case by simp
next
  case (Cons v visited)
  obtain c items where v: "v = (c, items)" by (cases v)
  from Cons.prems v obtain resp where
    fetch: "ListFiles \<lparr>Page = p, PerPage = 300\<rparr> = Inr (items, resp)"
    and more: "NextPage resp \<noteq> 0"
    and rest: "delivers ListFiles (NextPage resp) visited q"
    by (auto split: sum.splits)
  have "GetModifiedFiles_loop ListFiles files p =
          GetModifiedFiles_loop ListFiles (appendPageFiles files items) (NextPage resp)"
    using fetch more by (subst GetModifiedFiles_loop.simps) (simp add: listOpts_eq)
  also have "\<dots> = GetModifiedFiles_loop ListFiles
       (appendPageFiles files items @ concat (map fileNames (concat (map snd visited)))) q"
    by (rule Cons.IH [OF rest])
  finally show ?case by (simp add: v appendPageFiles_eq)
qed

text \<open>
  C5. When the fetches of the pages \<open>visited\<close> succeed and the next fetch fails,
  \<open>GetModifiedFiles\<close> returns that error together with the names collected from the pages
  fetched before it, in order.
\<close>

theorem GetModifiedFiles_partial_on_error:
  assumes "delivers ListFiles 0 visited q"
    and "ListFiles \<lparr>Page = q, PerPage = 300\<rparr> = Inl err"
  shows "GetModifiedFiles ListFiles =
           Some (concat (map fileNames (concat (map snd visited))), Some err)"
proof -
  have "GetModifiedFiles ListFiles =
          GetModifiedFiles_loop ListFiles
            ([] @ concat (map fileNames (concat (map snd visited)))) q"
    unfolding GetModifiedFiles_def by (rule GetModifiedFiles_loop_delivers [OF assms(1)])
  also have "\<dots> = Some (concat (map fileNames (concat (map snd visited))), Some err)"
    using assms(2) by (subst GetModifiedFiles_loop.simps) (simp add: listOpts_eq)
  finally show ?thesis .
qed

theorem GetModifiedFiles_partial_on_error_witness:
  "delivers (example_ListFiles True) 0
     [(0, [Some \<lparr>Filename = Some ''b.tf'', Status = Some ''renamed'',
                  PreviousFilename = Some ''a.tf''\<rparr>,
           Some \<lparr>Filename = Some ''a.tf'', Status = Some ''added'',
                  PreviousFilename = None\<rparr>])] 2
   \<and> example_ListFiles True \<lparr>Page = 2, PerPage = 300\<rparr> = Inl (LibError ''502 Bad Gateway'')
   \<and> GetModifiedFiles (example_ListFiles True) =
       Some ([''b.tf'', ''a.tf'', ''a.tf''], Some (LibError ''502 Bad Gateway''))"
proof -
  have d: "delivers (example_ListFiles True) 0
     [(0, [Some \<lparr>Filename = Some ''b.tf'', Status = Some ''renamed'',
                  PreviousFilename = Some ''a.tf''\<rparr>,
           Some \<lparr>Filename = Some ''a.tf'', Status = Some ''added'',
                  PreviousFilename = None\<rparr>])] 2"
    by (simp add: example_ListFiles_def)
  have e: "example_ListFiles True \<lparr>Page = 2, PerPage = 300\<rparr> = Inl (LibError ''502 Bad Gateway'')"
    by (simp add: example_ListFiles_def)
  show ?thesis
    using d e GetModifiedFiles_partial_on_error [OF d e]
    by (simp add: fileNames_def GetStatus_def GetFilename_def GetPreviousFilename_def)
qed

text \<open>
  C7. When the walk ends on a page that announces no next page, \<open>GetModifiedFiles\<close>
  returns, with no error, the names of the files of all pages in the order the pages and
  the platform give them: every file contributes its name, and a file with the status
  \<open>renamed\<close> its previous name right after. Nothing is removed, so a name can occur twice.
\<close>

theorem GetModifiedFiles_order_and_renames:
  assumes "delivers ListFiles 0 visited q"
    and "ListFiles \<lparr>Page = q, PerPage = 300\<rparr> = Inr (lastPage, resp)"
    and "NextPage resp = 0"
  shows "GetModifiedFiles ListFiles =
           Some (concat (map (\<lambda>f. if GetStatus f = ''renamed''
                                    then [GetFilename f, GetPreviousFilename f]
                                    else [GetFilename f])
                          (concat (map snd visited) @ lastPage)), None)"
proof -
  have "GetModifiedFiles ListFiles =
          GetModifiedFiles_loop ListFiles
            ([] @ concat (map fileNames (concat (map snd visited)))) q"
    unfolding GetModifiedFiles_def by (rule GetModifiedFiles_loop_delivers [OF assms(1)])
  also have "\<dots> = Some (concat (map fileNames (concat (map snd visited) @ lastPage)), None)"
    using assms(2,3)
    by (subst GetModifiedFiles_loop.simps) (simp add: listOpts_eq appendPageFiles_eq)
  finally show ?thesis by (simp add: fileNames_def [abs_def])
qed

theorem GetModifiedFiles_order_and_renames_witness:
  "delivers (example_ListFiles False) 0
     [(0, [Some \<lparr>Filename = Some ''b.tf'', Status = Some ''renamed'',
                  PreviousFilename = Some ''a.tf''\<rparr>,
           Some \<lparr>Filename = Some ''a.tf'', Status = Some ''added'',
                  PreviousFilename = None\<rparr>])] 2
   \<and> example_ListFiles False \<lparr>Page = 2, PerPage = 300\<rparr> =
       Inr ([Some \<lparr>Filename = Some ''c.tf'', Status = Some ''modified'',
                    PreviousFilename = None\<rparr>], \<lparr>NextPage = 0\<rparr>)
   \<and> GetModifiedFiles (example_ListFiles False) =
       Some ([''b.tf'', ''a.tf'', ''a.tf'', ''c.tf''], None)"
proof -
  have d: "delivers (example_ListFiles False) 0
     [(0, [Some \<lparr>Filename = Some ''b.tf'', Status = Some ''renamed'',
                  PreviousFilename = Some ''a.tf''\<rparr>,
           Some \<lparr>Filename = Some ''a.tf'', Status = Some ''added'',
                  PreviousFilename = None\<rparr>])] 2"
    by (simp add: example_ListFiles_def)
  have e: "example_ListFiles False \<lparr>Page = 2, PerPage = 300\<rparr> =
       Inr ([Some \<lparr>Filename = Some ''c.tf'', Status = Some ''modified'',
                    PreviousFilename = None\<rparr>], \<lparr>NextPage = 0\<rparr>)"
    by (simp add: example_ListFiles_def)
  show ?thesis
    using d e GetModifiedFiles_order_and_renames [OF d e]
    by (simp add: GetStatus_def GetFilename_def GetPreviousFilename_def)
qed

lemma approvedOnPage_iff:
  "approvedOnPage pageReviews \<longleftrightarrow>
     (\<exists>review \<in> set pageReviews. GetState review = ''APPROVED'')"
  by (induction pageReviews) (auto simp: GetState_def)

lemma PullIsApproved_loop_delivers:
  "delivers ListReviews p visited q \<Longrightarrow>
   \<forall>review \<in> set (concat (map snd visited)). GetState review \<noteq> ''APPROVED'' \<Longrightarrow>
   PullIsApproved_loop ListReviews calls p =
     PullIsApproved_loop ListReviews (calls @ map (\<lambda>v. listOpts (fst v)) visited) q"
proof (induction visited arbitrary: p calls)
  case Nil
  then show ?case by simp
next
  case (Cons v visited)
  obtain c items where v: "v = (c, items)" by (cases v)
  from Cons.prems(1) v obtain resp where
    fetch: "ListReviews \<lparr>Page = p, PerPage = 300\<rparr> = Inr (items, resp)"
    and more: "NextPage resp \<noteq> 0" and c: "c = p"
    and rest: "delivers ListReviews (NextPage resp) visited q"
    by (auto split: sum.splits)
  from Cons.prems(2) v have none: "\<not> approvedOnPage items"
    and later: "\<forall>review \<in> set (concat (map snd visited)). GetState review \<noteq> ''APPROVED''"
    by (auto simp: approvedOnPage_iff)
  have "PullIsApproved_loop ListReviews calls p =
          PullIsApproved_loop ListReviews (calls @ [listOpts p]) (NextPage resp)"
    using fetch more none by (subst PullIsApproved_loop.simps) (simp add: listOpts_eq)
  also have "\<dots> = PullIsApproved_loop ListReviews
       ((calls @ [listOpts p]) @ map (\<lambda>v. listOpts (fst v)) visited) q"
    by (rule Cons.IH [OF rest later])
  finally show ?case by (simp add: v c)
qed

text \<open>
  C6. Let the pages \<open>visited\<close> be fetched without an approved review on them, and let the
  next fetch succeed. If its page holds a review in the state \<open>APPROVED\<close>,
  \<open>PullIsApproved\<close> returns true with no error, and that fetch is the last call it made,
  whatever next page the response announces. If the page holds none and announces no next
  page, \<open>PullIsApproved\<close> returns false with no error.
\<close>

theorem PullIsApproved_short_circuit:
  assumes "delivers ListReviews 0 visited q"
    and "\<forall>review \<in> set (concat (map snd visited)). GetState review \<noteq> ''APPROVED''"
    and "ListReviews \<lparr>Page = q, PerPage = 300\<rparr> = Inr (pageReviews, resp)"
  shows "((\<exists>review \<in> set pageReviews. GetState review = ''APPROVED'') \<longrightarrow>
            PullIsApproved ListReviews =
              Some ((True, None),
                    map (\<lambda>(p, items). \<lparr>Page = p, PerPage = 300\<rparr>) visited
                      @ [\<lparr>Page = q, PerPage = 300\<rparr>]))
       \<and> ((\<forall>review \<in> set pageReviews. GetState review \<noteq> ''APPROVED'') \<and> NextPage resp = 0 \<longrightarrow>
            PullIsApproved ListReviews =
              Some ((False, None),
                    map (\<lambda>(p, items). \<lparr>Page = p, PerPage = 300\<rparr>) visited
                      @ [\<lparr>Page = q, PerPage = 300\<rparr>]))"
proof -
  have calls: "map (\<lambda>v. listOpts (fst v)) visited =
                 map (\<lambda>(p, items). \<lparr>Page = p, PerPage = 300\<rparr>) visited"
    by (simp add: listOpts_eq case_prod_unfold)
  have walk: "PullIsApproved ListReviews =
          PullIsApproved_loop ListReviews ([] @ map (\<lambda>v. listOpts (fst v)) visited) q"
    unfolding PullIsApproved_def by (rule PullIsApproved_loop_delivers [OF assms(1,2)])
  show ?thesis
    unfolding walk
    using assms(3)
    by (subst PullIsApproved_loop.simps, subst PullIsApproved_loop.simps)
       (auto simp: listOpts_eq approvedOnPage_iff calls)
qed

theorem PullIsApproved_short_circuit_witness:
  "PullIsApproved (example_ListReviews ''APPROVED'' 3) =
     Some ((True, None), [\<lparr>Page = 0, PerPage = 300\<rparr>, \<lparr>Page = 2, PerPage = 300\<rparr>])
   \<and> PullIsApproved (example_ListReviews ''CHANGES_REQUESTED'' 0) =
     Some ((False, None), [\<lparr>Page = 0, PerPage = 300\<rparr>, \<lparr>Page = 2, PerPage = 300\<rparr>])"
proof -
  have d: "delivers (example_ListReviews st n) 0
             [(0, [Some \<lparr>State = Some ''COMMENTED''\<rparr>, None])] 2" for st n
    by (simp add: example_ListReviews_def)
  have none: "\<forall>review \<in> set (concat (map snd [(0 :: int, [Some \<lparr>State = Some ''COMMENTED''\<rparr>, None])])).
                GetState review \<noteq> ''APPROVED''"
    by (simp add: GetState_def)
  have e: "example_ListReviews st n \<lparr>Page = 2, PerPage = 300\<rparr> =
             Inr ([Some \<lparr>State = Some st\<rparr>], \<lparr>NextPage = n\<rparr>)" for st n
    by (simp add: example_ListReviews_def)
  show ?thesis
    using PullIsApproved_short_circuit [OF d none e, of "''APPROVED''" 3]
      PullIsApproved_short_circuit [OF d none e, of "''CHANGES_REQUESTED''" 0]
    by (simp add: GetState_def)
qed

section \<open>Properties of the credentials\<close>

text \<open>
  \<open>Client\<close> of \<^verbatim>\<open>github_credentials.go\<close> hands an error of the resolver, or of the
  construction of the installation transport, back to its caller.
\<close>

lemma Client_surfaces_resolution_error:
  "getInstallationID NewAppsTransportKeyFromFile NewRequest Do c = (n, Some err) \<Longrightarrow>
   Client NewAppsTransportKeyFromFile NewRequest Do NewKeyFromFile c = Inl err"
  by (simp add: Client_def)

lemma Client_surfaces_key_error:
  "getInstallationID NewAppsTransportKeyFromFile NewRequest Do c = (n, None) \<Longrightarrow>
   NewKeyFromFile (AppID c) n (KeyPath c) = Inl err \<Longrightarrow>
   Client NewAppsTransportKeyFromFile NewRequest Do NewKeyFromFile c = Inl err"
  by (simp add: Client_def)

text \<open>The \<open>Client\<close> beside the platform client panics with the same errors.\<close>

lemma Client_part_000_panics_on_resolution_error:
  "getInstallationID_part_000 NewAppsTransportKeyFromFile NewRequest Do c = (n, Some err) \<Longrightarrow>
   Client_part_000 NewAppsTransportKeyFromFile NewRequest Do NewKeyFromFile c = Panics err"
  by (simp add: Client_part_000_def)

lemma Client_part_000_panics_on_key_error:
  "getInstallationID_part_000 NewAppsTransportKeyFromFile NewRequest Do c = (n, None) \<Longrightarrow>
   NewKeyFromFile (App c) n (Key c) = Inl err \<Longrightarrow>
   Client_part_000 NewAppsTransportKeyFromFile NewRequest Do NewKeyFromFile c = Panics err"
  by (simp add: Client_part_000_def)

text \<open>
  C1. An application credential whose key file cannot be read: the \<open>Client\<close> beside the
  platform client does not return the error, it panics with it.
\<close>

theorem Client_part_000_panics:
  "Client_part_000
     (\<lambda>appID keyFile. (Inl (LibError ''could not read private key'') :: error + unit))
     (\<lambda>method url. Inr \<lparr>Method = method, URL = url\<rparr>)
     (\<lambda>t req. Inr ''12345'')
     (\<lambda>appID installationID keyFile. (Inr () :: error + unit))
     \<lparr>App = 1, Key = ''missing.pem''\<rparr>
   = Panics (LibError ''could not read private key'')"
  by (simp add: Client_part_000_def getInstallationID_part_000_def)

section \<open>Properties of the controller\<close>

text \<open>
  C10. With the setup not complete and no \<open>code\<close> parameter in the query,
  \<open>ExchangeCode\<close> writes the response \<open>Ignoring callback, missing code query parameter\<close>
  with status 200 and goes on: it builds the exchange request for the empty code, sends
  it when it could be built, and writes exactly one more response.
\<close>

theorem ExchangeCode_missing_code:
  assumes "\<not> GithubSetupComplete g"
    and "Sprintf ''Ignoring callback, missing code query parameter'' [] =
           ''Ignoring callback, missing code query parameter''"
  shows "\<exists>rest.
      ExchangeCode Sprintf NewRequest Do Marshal g None =
        [LoggerLog logging_Debug ''Ignoring callback, missing code query parameter'',
         WriteHeader 200,
         Fprintln ''Ignoring callback, missing code query parameter'',
         LoggerDebug ''Exchanging GitHub app code for app credentials'' [],
         HttpNewRequest ''POST'' ''/app-manifests//conversions''] @ rest
      \<and> length (filter isWriteHeader rest) = 1
      \<and> (\<forall>req. NewRequest ''POST'' ''/app-manifests//conversions'' = Inr req \<longrightarrow>
             hd rest = ClientDo req)"
  using assms
  by (auto simp: ExchangeCode_def respond_def StatusOK_def Let_def split: sum.splits prod.splits)

theorem ExchangeCode_missing_code_witness:
  "\<not> GithubSetupComplete
       \<lparr>AtlantisURL = ''https://atlantis.example.com'', GithubSetupComplete = False,
        GithubHostname = ''github.com'', GithubOrg = []\<rparr>
   \<and> ExchangeCode (\<lambda>format args. format)
        (\<lambda>method url. Inr \<lparr>Method = method, URL = url\<rparr>)
        (\<lambda>req. Inl (LibError ''404 Not Found''))
        (\<lambda>response. ''{}'')
        \<lparr>AtlantisURL = ''https://atlantis.example.com'', GithubSetupComplete = False,
         GithubHostname = ''github.com'', GithubOrg = []\<rparr> None =
      [LoggerLog logging_Debug ''Ignoring callback, missing code query parameter'',
       WriteHeader 200,
       Fprintln ''Ignoring callback, missing code query parameter'',
       LoggerDebug ''Exchanging GitHub app code for app credentials'' [],
       HttpNewRequest ''POST'' ''/app-manifests//conversions'',
       ClientDo \<lparr>Method = ''POST'', URL = ''/app-manifests//conversions''\<rparr>,
       LoggerLog logging_Error ''Error exchanging code for token: %s'',
       WriteHeader 502,
       Fprintln ''Error exchanging code for token: %s'']"
  using ExchangeCode_missing_code [of
      "\<lparr>AtlantisURL = ''https://atlantis.example.com'', GithubSetupComplete = False,
        GithubHostname = ''github.com'', GithubOrg = []\<rparr>"
      "\<lambda>format args. format"
      "\<lambda>method url. Inr \<lparr>Method = method, URL = url\<rparr>"
      "\<lambda>req. Inl (LibError ''404 Not Found'')"
      "\<lambda>response. ''{}''"]
  by (simp add: ExchangeCode_def respond_def StatusOK_def StatusBadGateway_def Let_def)

section \<open>Properties of the installation resolver\<close>

lemma ParseInt_12345: "ParseInt ''12345'' = (12345, None)"
  by (simp add: ParseInt_def ParseUint_def digitValue_def byte_def cutoff10_def maxVal_def
      ParseInt_signed_def Let_def word_le_nat_alt word_less_nat_alt)

lemma ParseInt_neg: "ParseInt ''-9223372036854775808'' = (- 9223372036854775808, None)"
  by code_simp

lemma ParseInt_big: "ParseInt ''9223372036854775808'' = (9223372036854775807, Some (NumError ''ParseInt'' ''9223372036854775808'' ErrRange))"
  by code_simp

lemma ParseInt_under: "ParseInt ''1_000'' = (0, Some (NumError ''ParseInt'' ''1_000'' ErrSyntax))"
  by code_simp


lemma digitValue_nondigit:
  "\<not> isDigit c \<Longrightarrow> digitValue c = None \<or> (\<exists>d. digitValue c = Some d \<and> d \<ge> 10)"
  by (auto simp: digitValue_def isDigit_def)

lemma digitValue_digit:
  "isDigit c \<Longrightarrow> digitValue c = Some (byte c - 48) \<and> byte c - 48 < 10"
  by (auto simp: digitValue_def isDigit_def)

lemma ParseUint_digits_fails:
  "\<not> list_all isDigit cs \<Longrightarrow> \<exists>un err. ParseUint_digits s0 cs n = (un, Some err)"
proof (induction cs arbitrary: n)
  case Nil
  then show ?case by simp
next
  case (Cons c cs)
  show ?case
  proof (cases "isDigit c")
    case True
    with Cons.prems have "\<not> list_all isDigit cs" by simp
    from Cons.IH [OF this] digitValue_digit [OF True] show ?thesis
      by (auto simp: Let_def)
  next
    case False
    from digitValue_nondigit [OF this] show ?thesis by auto
  qed
qed

lemma ParseUint_digits_range:
  "ParseUint_digits s0 cs n = (un, Some err) \<Longrightarrow> isRange err \<Longrightarrow> un = maxVal"
proof (induction cs arbitrary: n)
  case Nil
  then show ?case by simp
next
  case (Cons c cs)
  then show ?case
    by (auto simp: Let_def isRange_def syntaxError_def rangeError_def
        split: option.splits if_splits)
qed

lemma ParseInt_signed_maxVal:
  "\<exists>v err. ParseInt_signed s0 neg maxVal = (v, Some err)"
  by (simp add: ParseInt_signed_def maxVal_def Let_def)

lemma ParseInt_fails:
  assumes "\<not> isDecimalInteger s"
  shows "\<exists>v err. ParseInt s = (v, Some err)"
proof (cases "s = []")
  case True
  then show ?thesis by (simp add: ParseInt_def)
next
  case False
  then obtain c cs where s: "s = c # cs" by (cases s) auto
  define u where "u = unsignedPart s"
  have strip: "(if hd s = CHR ''+'' then (False, tl s)
                else if hd s = CHR ''-'' then (True, tl s) else (False, s)) =
               (hd s = CHR ''-'', u)"
    by (auto simp: u_def unsignedPart_def s)
  have "\<exists>un err. ParseUint u = (un, Some err)"
  proof (cases "u = []")
    case True
    then show ?thesis by (simp add: ParseUint_def)
  next
    case False
    with assms have "\<not> list_all isDigit u" by (simp add: isDecimalInteger_def u_def)
    from ParseUint_digits_fails [OF this] False show ?thesis by (simp add: ParseUint_def)
  qed
  then obtain un err where pu: "ParseUint u = (un, Some err)" by blast
  show ?thesis
  proof (cases "isRange err")
    case True
    have "un = maxVal"
    proof (cases "u = []")
      case True
      with pu \<open>isRange err\<close> show ?thesis
        by (auto simp: ParseUint_def isRange_def syntaxError_def)
    next
      case False
      with pu have "ParseUint_digits u u 0 = (un, Some err)" by (simp add: ParseUint_def)
      from ParseUint_digits_range [OF this True] show ?thesis .
    qed
    with True pu strip False ParseInt_signed_maxVal [of s "hd s = CHR ''-''"] show ?thesis
      by (simp add: ParseInt_def)
  next
    case False
    with pu strip \<open>s \<noteq> []\<close> show ?thesis by (simp add: ParseInt_def)
  qed
qed

lemma decimalValue_Cons:
  "decimalValue acc (c # cs) = decimalValue (acc * 10 + (byte c - 48)) cs"
  by (simp add: decimalValue_def)

lemma decimalValue_ge: "acc \<le> decimalValue acc ds"
proof (induction ds arbitrary: acc)
  case Nil
  show ?case by (simp add: decimalValue_def)
next
  case (Cons c cs)
  have "acc \<le> acc * 10 + (byte c - 48)" by simp
  also have "\<dots> \<le> decimalValue (acc * 10 + (byte c - 48)) cs" by (rule Cons.IH)
  finally show ?case by (simp add: decimalValue_Cons)
qed

lemma ParseUint_digits_step:
  fixes n :: uint64
  assumes d: "d < 10" and fits: "unat n * 10 + d < 2 ^ 64"
  shows "\<not> cutoff10 \<le> n" and "\<not> n * 10 + of_nat d < n * 10"
    and "\<not> n * 10 + of_nat d > maxVal" and "unat (n * 10 + of_nat d) = unat n * 10 + d"
proof -
  have n: "unat n < 1844674407370955162" using fits by simp
  have c: "unat cutoff10 = 1844674407370955162" by (simp add: cutoff10_def)
  show "\<not> cutoff10 \<le> n" using n c by (simp add: word_le_nat_alt)
  have m: "unat (n * 10) = unat n * 10"
    using fits by (simp add: unat_word_ariths)
  have dd: "unat (of_nat d :: uint64) = d" using d by (simp add: unat_of_nat)
  show s: "unat (n * 10 + of_nat d) = unat n * 10 + d"
    using fits m dd by (simp add: unat_word_ariths)
  show "\<not> n * 10 + of_nat d < n * 10" using s m by (simp add: word_less_nat_alt)
  have "unat maxVal = 2 ^ 64 - 1" by (simp add: maxVal_def)
  then show "\<not> n * 10 + of_nat d > maxVal" using s fits by (simp add: word_less_nat_alt)
qed

lemma ParseUint_digits_value:
  "list_all isDigit ds \<Longrightarrow> decimalValue (unat n) ds < 2 ^ 64 \<Longrightarrow>
   ParseUint_digits s0 ds n = (of_nat (decimalValue (unat n) ds), None)"
proof (induction ds arbitrary: n)
  case Nil
  show ?case by (simp add: decimalValue_def)
next
  case (Cons c cs)
  define d where "d = byte c - 48"
  from Cons.prems(1) have dig: "digitValue c = Some d" and d: "d < 10" and cs: "list_all isDigit cs"
    using digitValue_digit [of c] by (simp_all add: d_def)
  from Cons.prems(2) have v: "decimalValue (unat n * 10 + d) cs < 2 ^ 64"
    by (simp add: decimalValue_Cons d_def)
  with decimalValue_ge [of "unat n * 10 + d" cs] have fits: "unat n * 10 + d < 2 ^ 64"
    by simp
  note step = ParseUint_digits_step [OF d fits]
  have "ParseUint_digits s0 (c # cs) n = ParseUint_digits s0 cs (n * 10 + of_nat d)"
    using dig d step(1,2,3) by (simp add: Let_def)
  also have "\<dots> = (of_nat (decimalValue (unat (n * 10 + of_nat d)) cs), None)"
    using cs v by (intro Cons.IH) (simp_all add: step(4))
  finally have "ParseUint_digits s0 (c # cs) n =
      (of_nat (decimalValue (unat n * 10 + d) cs), None)"
    by (simp only: step(4))
  then show ?case by (simp only: decimalValue_Cons d_def)
qed

lemma ParseInt_value:
  assumes dec: "isDecimalInteger s"
    and lo: "- (2 ^ 63) \<le> integerValue s" and hi: "integerValue s < 2 ^ 63"
  shows "ParseInt s = (word_of_int (integerValue s), None)"
proof -
  define u where "u = unsignedPart s"
  define neg where "neg = (hd s = CHR ''-'')"
  define v where "v = decimalValue 0 u"
  from dec have u: "u \<noteq> []" "list_all isDigit u" by (simp_all add: isDecimalInteger_def u_def)
  then have s: "s \<noteq> []" by (auto simp: u_def unsignedPart_def)
  have strip: "(if hd s = CHR ''+'' then (False, tl s)
                else if hd s = CHR ''-'' then (True, tl s) else (False, s)) = (neg, u)"
    using s by (cases s) (auto simp: u_def unsignedPart_def neg_def)
  have iv: "integerValue s = (if neg then - int v else int v)"
    using s by (simp add: integerValue_def neg_def v_def u_def)
  have bound: "v \<le> 2 ^ 63" "\<not> neg \<Longrightarrow> v < 2 ^ 63"
    using lo hi iv by (auto split: if_splits)
  then have "decimalValue (unat (0 :: uint64)) u < 2 ^ 64" by (simp add: v_def)
  from ParseUint_digits_value [OF u(2) this] u(1)
  have pu: "ParseUint u = (of_nat v, None)" by (simp add: ParseUint_def v_def)
  have un: "unat (of_nat v :: uint64) = v" using bound(1) by (simp add: unat_of_nat)
  have cut: "unat (push_bit 63 1 :: uint64) = 2 ^ 63" by (simp add: unat_eq_nat_uint)
  have "ParseInt_signed s neg (of_nat v) = (if neg then - of_nat v else of_nat v, None)"
    using bound un cut by (auto simp: ParseInt_signed_def Let_def word_le_nat_alt word_less_nat_alt)
  then show ?thesis
    using s strip pu iv by (simp add: ParseInt_def)
qed

text \<open>
  C9. With the application transport built and the request made, the resolver parses the
  field \<open>ID\<close> of the answer in base 10: the text \<open>12345\<close> gives the id 12345, and every
  text that is an integer within 64 bits gives that integer. A text that is not an
  integer makes the resolver return an error, which \<open>Client\<close> returns to its caller.
\<close>

theorem getInstallationID_parses:
  assumes "NewAppsTransportKeyFromFile (AppID c) (KeyPath c) = Inr t"
    and "NewRequest ''GET'' ''/app'' = Inr req"
  shows "(Do t req = Inr ''12345'' \<longrightarrow>
            getInstallationID NewAppsTransportKeyFromFile NewRequest Do c = (12345, None))
       \<and> (Do t req = Inr ID \<and> isDecimalInteger ID
            \<and> - (2 ^ 63) \<le> integerValue ID \<and> integerValue ID < 2 ^ 63 \<longrightarrow>
            (\<exists>n. getInstallationID NewAppsTransportKeyFromFile NewRequest Do c = (n, None)
                 \<and> sint n = integerValue ID))
       \<and> (Do t req = Inr ID \<and> \<not> isDecimalInteger ID \<longrightarrow>
            (\<exists>n err. getInstallationID NewAppsTransportKeyFromFile NewRequest Do c = (n, Some err)
                 \<and> Client NewAppsTransportKeyFromFile NewRequest Do NewKeyFromFile c = Inl err))"
proof (intro conjI impI)
  assume "Do t req = Inr ''12345''"
  with assms show "getInstallationID NewAppsTransportKeyFromFile NewRequest Do c = (12345, None)"
    by (simp add: getInstallationID_def ParseInt_12345)
next
  assume a: "Do t req = Inr ID \<and> isDecimalInteger ID
            \<and> - (2 ^ 63) \<le> integerValue ID \<and> integerValue ID < 2 ^ 63"
  then have "ParseInt ID = (word_of_int (integerValue ID), None)"
    by (intro ParseInt_value) simp_all
  with assms a have "getInstallationID NewAppsTransportKeyFromFile NewRequest Do c =
      (word_of_int (integerValue ID), None)"
    by (simp add: getInstallationID_def)
  moreover from a have "sint (word_of_int (integerValue ID) :: int64) = integerValue ID"
    by (simp add: signed_of_int signed_take_bit_int_eq_self)
  ultimately show "\<exists>n. getInstallationID NewAppsTransportKeyFromFile NewRequest Do c = (n, None)
                 \<and> sint n = integerValue ID"
    by blast
next
  assume a: "Do t req = Inr ID \<and> \<not> isDecimalInteger ID"
  then obtain v err where "ParseInt ID = (v, Some err)"
    using ParseInt_fails by blast
  with assms a have "getInstallationID NewAppsTransportKeyFromFile NewRequest Do c = (v, Some err)"
    by (simp add: getInstallationID_def)
  then show "\<exists>n err. getInstallationID NewAppsTransportKeyFromFile NewRequest Do c = (n, Some err)
                 \<and> Client NewAppsTransportKeyFromFile NewRequest Do NewKeyFromFile c = Inl err"
    by (simp add: Client_def)
qed

theorem getInstallationID_parses_witness:
  "getInstallationID (\<lambda>appID keyFile. (Inr () :: error + unit))
       (\<lambda>method url. Inr \<lparr>Method = method, URL = url\<rparr>) (\<lambda>t req. Inr ''12345'')
       \<lparr>AppID = 7, KeyPath = ''key.pem''\<rparr> = (12345, None)
   \<and> isDecimalInteger ''12345'' \<and> integerValue ''12345'' = 12345
   \<and> \<not> isDecimalInteger ''12a45''
   \<and> (\<exists>n err. getInstallationID (\<lambda>appID keyFile. (Inr () :: error + unit))
       (\<lambda>method url. Inr \<lparr>Method = method, URL = url\<rparr>) (\<lambda>t req. Inr ''12a45'')
       \<lparr>AppID = 7, KeyPath = ''key.pem''\<rparr> = (n, Some err)
      \<and> Client (\<lambda>appID keyFile. (Inr () :: error + unit))
       (\<lambda>method url. Inr \<lparr>Method = method, URL = url\<rparr>) (\<lambda>t req. Inr ''12a45'')
       (\<lambda>appID installationID keyFile. (Inr () :: error + unit))
       \<lparr>AppID = 7, KeyPath = ''key.pem''\<rparr> = Inl err)"
proof -
  have d: "isDecimalInteger ''12345''" "integerValue ''12345'' = 12345"
    "\<not> isDecimalInteger ''12a45''"
    by (simp_all add: isDecimalInteger_def unsignedPart_def isDigit_def byte_def
        integerValue_def decimalValue_def)
  show ?thesis
    using d
      getInstallationID_parses [of "\<lambda>appID keyFile. (Inr () :: error + unit)"
        "\<lparr>AppID = 7, KeyPath = ''key.pem''\<rparr>" "()"
        "\<lambda>method url. Inr \<lparr>Method = method, URL = url\<rparr>"
        "\<lparr>Method = ''GET'', URL = ''/app''\<rparr>" "\<lambda>t req. Inr ''12345''" "''12345''"]
      getInstallationID_parses [of "\<lambda>appID keyFile. (Inr () :: error + unit)"
        "\<lparr>AppID = 7, KeyPath = ''key.pem''\<rparr>" "()"
        "\<lambda>method url. Inr \<lparr>Method = method, URL = url\<rparr>"
        "\<lparr>Method = ''GET'', URL = ''/app''\<rparr>" "\<lambda>t req. Inr ''12a45''" "''12a45''"
        "\<lambda>appID installationID keyFile. (Inr () :: error + unit)"]
    by simp
qed

section \<open>Properties of the comment chunker\<close>

lemma cutPoint_le: "cutPoint room body \<le> room"
  by (simp add: cutPoint_def Let_def)

lemma concat_splitPieces: "concat (splitPieces room body) = body"
proof (induction room body rule: splitPieces.induct)
  case (1 room body)
  show ?case
  proof (cases "room = 0 \<or> length body \<le> room")
    case True
    then show ?thesis by (subst splitPieces.simps) simp
  next
    case False
    with "1.IH" have "concat (splitPieces room (drop (cutPoint room body) body)) =
        drop (cutPoint room body) body" by simp
    with False show ?thesis by (subst splitPieces.simps) simp
  qed
qed

lemma splitPieces_length:
  "0 < room \<Longrightarrow> p \<in> set (splitPieces room body) \<Longrightarrow> length p \<le> room"
proof (induction room body rule: splitPieces.induct)
  case (1 room body)
  show ?case
  proof (cases "length body \<le> room")
    case True
    with "1.prems" show ?thesis by (subst (asm) splitPieces.simps) simp
  next
    case False
    with "1.prems" have "p = take (cutPoint room body) body
        \<or> p \<in> set (splitPieces room (drop (cutPoint room body) body))"
      by (subst (asm) splitPieces.simps) simp
    then show ?thesis
    proof
      assume "p = take (cutPoint room body) body"
      then show ?thesis using cutPoint_le [of room body] by simp
    next
      assume "p \<in> set (splitPieces room (drop (cutPoint room body) body))"
      with "1.IH" "1.prems"(1) False show ?thesis by simp
    qed
  qed
qed

lemma wrapRest_Cons: "\<exists>s ss. wrapRest e b (q # ps) = s # ss"
  by (cases ps) simp_all

lemma stripRest_wrapRest: "stripRest e b (wrapRest e b ps) = ps"
proof (induction e b ps rule: wrapRest.induct)
  case (3 e b p q ps)
  obtain s ss where w: "wrapRest e b (q # ps) = s # ss"
    using wrapRest_Cons by blast
  with "3.IH" show ?case by simp
qed simp_all

lemma stripWrapping_wrapPieces: "stripWrapping e b (wrapPieces e b ps) = ps"
proof (cases ps)
  case Nil
  then show ?thesis by simp
next
  case (Cons p qs)
  show ?thesis
  proof (cases qs)
    case Nil
    with Cons show ?thesis by simp
  next
    case (Cons q rs)
    obtain s ss where w: "wrapRest e b (q # rs) = s # ss"
      using wrapRest_Cons by blast
    have "stripRest e b (s # ss) = q # rs"
      using stripRest_wrapRest [of e b "q # rs"] by (simp add: w)
    with w \<open>ps = p # qs\<close> Cons show ?thesis by simp
  qed
qed

lemma wrapRest_length:
  "\<forall>p \<in> set ps. length p \<le> room \<Longrightarrow> s \<in> set (wrapRest e b ps) \<Longrightarrow>
   length s \<le> room + length e + length b"
  by (induction e b ps rule: wrapRest.induct) auto

lemma wrapPieces_length:
  assumes "\<forall>p \<in> set ps. length p \<le> room" and "s \<in> set (wrapPieces e b ps)"
  shows "length s \<le> room + length e + length b"
proof (cases ps)
  case Nil
  with assms show ?thesis by simp
next
  case (Cons p qs)
  show ?thesis
  proof (cases qs)
    case Nil
    with Cons assms show ?thesis by simp
  next
    case (Cons q rs)
    with \<open>ps = p # qs\<close> assms(2) have "s = p @ e \<or> s \<in> set (wrapRest e b (q # rs))" by simp
    then show ?thesis
    proof
      assume "s = p @ e"
      with assms(1) \<open>ps = p # qs\<close> show ?thesis by simp
    next
      assume "s \<in> set (wrapRest e b (q # rs))"
      moreover from assms(1) \<open>ps = p # qs\<close> Cons have "\<forall>p \<in> set (q # rs). length p \<le> room"
        by simp
      ultimately show ?thesis by (rule wrapRest_length [rotated])
    qed
  qed
qed

lemma SplitComment_reconstructs:
  "concat (stripWrapping sepEnd sepStart (SplitComment comment maxSize sepEnd sepStart)) = comment"
  by (simp add: SplitComment_def stripWrapping_wrapPieces concat_splitPieces)

lemma SplitComment_bounded:
  assumes "length sepEnd + length sepStart < maxSize"
    and "s \<in> set (SplitComment comment maxSize sepEnd sepStart)"
  shows "length s \<le> maxSize"
proof (cases "length comment \<le> maxSize")
  case True
  with assms(2) show ?thesis by (simp add: SplitComment_def)
next
  case False
  define room where "room = maxSize - length sepEnd - length sepStart"
  from assms(1) have room: "0 < room" "room + length sepEnd + length sepStart = maxSize"
    by (simp_all add: room_def)
  have "\<forall>p \<in> set (splitPieces room comment). length p \<le> room"
    using splitPieces_length [OF room(1)] by blast
  moreover from False assms(2) have "s \<in> set (wrapPieces sepEnd sepStart (splitPieces room comment))"
    by (simp add: SplitComment_def room_def)
  ultimately have "length s \<le> room + length sepEnd + length sepStart"
    by (rule wrapPieces_length)
  with room(2) show ?thesis by simp
qed

lemma postComments_all_posted:
  "postComments (\<lambda>body. None) comments = (comments, None)"
  by (induction comments) simp_all

text \<open>The chunker at work on a small maximum: it cuts after a newline where it can.\<close>

lemma SplitComment_example:
  "SplitComment ''ab\<newline>cdefgh\<newline>ij'' 8 ''>'' ''<'' =
     [''ab\<newline>>'', ''<cdefgh>'', ''<\<newline>ij'']"
  by code_simp

lemma sep_lengths: "length CreateComment_sepEnd = 106" "length CreateComment_sepStart = 82"
  by (simp_all add: CreateComment_sepEnd_def CreateComment_sepStart_def)

text \<open>
  C2. For every comment, with the maximum 65536 and the markers of \<open>CreateComment\<close>: the
  segments, which are what \<open>CreateComment\<close> posts when no post fails, give back the
  comment when the wrapping is taken off and they are concatenated in order, and every
  segment, wrapping included, has at most 65536 characters.
\<close>

theorem CreateComment_segments:
  "CreateComment (\<lambda>body. None) comment =
     (SplitComment comment maxCommentLength CreateComment_sepEnd CreateComment_sepStart, None)
   \<and> concat (stripWrapping CreateComment_sepEnd CreateComment_sepStart
        (SplitComment comment maxCommentLength CreateComment_sepEnd CreateComment_sepStart))
       = comment
   \<and> (\<forall>s \<in> set (SplitComment comment maxCommentLength CreateComment_sepEnd CreateComment_sepStart).
        length s \<le> 65536)"
proof -
  have "length CreateComment_sepEnd + length CreateComment_sepStart < maxCommentLength"
    by (simp add: sep_lengths maxCommentLength_def)
  from SplitComment_bounded [OF this] show ?thesis
    by (auto simp: CreateComment_def postComments_all_posted SplitComment_reconstructs
        maxCommentLength_def)
qed

theorem CreateComment_segments_witness:
  "''Plan: 1 to add'' \<in> set (SplitComment ''Plan: 1 to add'' maxCommentLength
       CreateComment_sepEnd CreateComment_sepStart)
   \<and> length ''Plan: 1 to add'' \<le> 65536
   \<and> concat (stripWrapping CreateComment_sepEnd CreateComment_sepStart
        (SplitComment ''Plan: 1 to add'' maxCommentLength
           CreateComment_sepEnd CreateComment_sepStart)) = ''Plan: 1 to add''"
  using CreateComment_segments [of "''Plan: 1 to add''"]
  by (simp add: SplitComment_def maxCommentLength_def)

end
